theory Spec2Isabelle
  imports Complex_Main "HOL-Library.Multiset"
begin

section \<open>Data model\<close>

text \<open>
  The photo database of \<^verbatim>\<open>server/index.js\<close> is a JSON array of photo objects.
  A photo object is a record; field \<^verbatim>\<open>f\<close> of the JavaScript object is the field
  \<open>p_f\<close> here (the bare names \<^verbatim>\<open>id\<close>, \<^verbatim>\<open>w\<close>, \<^verbatim>\<open>h\<close>, \<^verbatim>\<open>order\<close> would
  shadow HOL constants and variables). Widths, heights and order values are integers;
  the ratio \<^verbatim>\<open>finalW / finalH\<close> is an exact rational, which agrees with the
  double-precision quotient on every comparison made with it as long as the
  dimensions stay below \<open>2 ^ 40\<close>.
\<close>

datatype orient = Land | Port | Sq

record photo =
  p_id :: string
  p_cloudinaryId :: string
  p_name :: string
  p_w :: int
  p_h :: int
  p_ratio :: rat
  p_orient :: orient
  p_order :: int
  p_published :: bool
  p_createdAt :: string

text \<open>
  The error responses of the handlers: \<open>InvalidInput\<close> is HTTP status 400,
  \<open>NotFound\<close> is HTTP status 404; the string is the \<^verbatim>\<open>error\<close> message of the body.
\<close>

datatype error = InvalidInput string | NotFound string

text \<open>The outcome of a call to an external service that may throw.\<close>

datatype outcome = Ok | Throws

section \<open>Geometry: ratio and orientation\<close>

text \<open>
  Lines 156-157 of the register handler:
  \<^verbatim>\<open>const ratio  = finalW && finalH ? finalW / finalH : 1;\<close>
  \<^verbatim>\<open>const orient = ratio > 1.15 ? 'land' : ratio < 0.87 ? 'port' : 'sq';\<close>
  A number is truthy when it is not zero.
\<close>

definition classify :: "int \<Rightarrow> int \<Rightarrow> rat \<times> orient" where
  "classify finalW finalH =
     (let ratio = (if finalW \<noteq> 0 \<and> finalH \<noteq> 0 then of_int finalW / of_int finalH else 1);
          orient = (if ratio > 115 / 100 then Land else if ratio < 87 / 100 then Port else Sq)
      in (ratio, orient))"

text \<open>
  The classifier as the specification words it: the quotient is taken when both
  dimensions are greater than 0, and the ratio is 1 otherwise.
\<close>

definition classify_spec :: "int \<Rightarrow> int \<Rightarrow> rat \<times> orient" where
  "classify_spec width height =
     (let ratio = (if 0 < width \<and> 0 < height then of_int width / of_int height else 1);
          orient = (if ratio > 115 / 100 then Land else if ratio < 87 / 100 then Port else Sq)
      in (ratio, orient))"

section \<open>Array operations of the handlers\<close>

text \<open>
  The definitions follow the handlers of \<^verbatim>\<open>server/index.js\<close> (the version with the
  direct upload and the register route). A handler runs after \<^verbatim>\<open>requireAuth\<close> let the
  request through; it reads the database with \<^verbatim>\<open>readDB\<close>, changes it and hands it to
  \<^verbatim>\<open>writeDB\<close>. It is modelled as a function from the database read to its answer and
  the database written: an answer with status 400 or 404 is an \<open>error\<close> on the left,
  and nothing is written then. The body of every handler stands in a
  \<^verbatim>\<open>try { ... } catch(e) { res.status(500) ... }\<close>; on a database that is an array of
  photo objects and a request body of the types below no statement of the body throws
  (\<^verbatim>\<open>readDB\<close> and \<^verbatim>\<open>writeDB\<close> catch what their own calls throw), so the model has no
  such branch.
\<close>

text \<open>
  \<^verbatim>\<open>const p = db.find(P); if (p) { ... p is changed ... }\<close>: the first element of
  the array that satisfies \<open>P\<close> is changed in place, the array keeps its length and
  its other elements. Nothing happens when no element satisfies \<open>P\<close>.
\<close>

fun update_first :: "('a \<Rightarrow> bool) \<Rightarrow> ('a \<Rightarrow> 'a) \<Rightarrow> 'a list \<Rightarrow> 'a list" where
  "update_first P g [] = []"
| "update_first P g (x # xs) = (if P x then g x # xs else x # update_first P g xs)"

text \<open>
  \<^verbatim>\<open>ids.forEach((id, i) => { const p = db.find(x => x.id === id); if (p) g(i, p); })\<close>,
  with \<open>i\<close> the index of the element of \<open>ids\<close> being visited.
\<close>

fun for_each_id :: "(nat \<Rightarrow> photo \<Rightarrow> photo) \<Rightarrow> string list \<Rightarrow> nat \<Rightarrow> photo list \<Rightarrow> photo list" where
  "for_each_id g [] i db = db"
| "for_each_id g (x # ids) i db =
     for_each_id g ids (Suc i) (update_first (\<lambda>p. p_id p = x) (g i) db)"

text \<open>\<^verbatim>\<open>db.forEach((p, i) => g(i, p))\<close>.\<close>

definition for_each_index :: "(nat \<Rightarrow> 'a \<Rightarrow> 'a) \<Rightarrow> 'a list \<Rightarrow> 'a list" where
  "for_each_index g db = map (\<lambda>(i, p). g i p) (enumerate 0 db)"

section \<open>POST /api/admin/photos/register\<close>

text \<open>
  The request body. A field that is absent from the body is \<open>None\<close>; the dimensions,
  when present, are integers (of either sign, below \<open>2 ^ 40\<close> in absolute value), so
  that \<^verbatim>\<open>parseInt(w) || 0\<close> is the integer itself, and 0 when the field is absent.
\<close>

record register_body =
  b_cloudinaryId :: "string option"
  b_originalName :: "string option"
  b_w :: "int option"
  b_h :: "int option"

text \<open>
  What the outside world answers during one call: \<open>x_resource\<close> is the result of
  \<^verbatim>\<open>cloudinary.api.resource(cloudinaryId)\<close> (\<open>None\<close> when it throws, otherwise
  \<^verbatim>\<open>info.width || 0\<close> and \<^verbatim>\<open>info.height || 0\<close>), \<open>x_uuid\<close> is the value of
  \<^verbatim>\<open>crypto.randomUUID()\<close> and \<open>x_now\<close> that of \<^verbatim>\<open>new Date().toISOString()\<close>.
\<close>

record register_ext =
  x_resource :: "(int \<times> int) option"
  x_uuid :: string
  x_now :: string

definition parse_dim :: "int option \<Rightarrow> int" where
  "parse_dim v = (case v of None \<Rightarrow> 0 | Some n \<Rightarrow> n)"

definition final_dims :: "register_body \<Rightarrow> (int \<times> int) option \<Rightarrow> int \<times> int" where
  "final_dims body resource =
     (let finalW = parse_dim (b_w body); finalH = parse_dim (b_h body)
      in if finalW = 0 \<or> finalH = 0
         then (case resource of Some (iw, ih) \<Rightarrow> (iw, ih) | None \<Rightarrow> (finalW, finalH))
         else (finalW, finalH))"

text \<open>\<^verbatim>\<open>cloudinaryId.split('/').pop()\<close>: what follows the last slash.\<close>

definition last_segment :: "string \<Rightarrow> string" where
  "last_segment s = rev (takeWhile (\<lambda>c. c \<noteq> CHR ''/'') (rev s))"

text \<open>
  The handler, from the database that \<^verbatim>\<open>readDB\<close> returned to the photo it answers
  with and the database it hands to \<^verbatim>\<open>writeDB\<close>. Node's \<^verbatim>\<open>path.basename\<close> and
  \<^verbatim>\<open>path.extname\<close> belong to the platform, not to this repository: they are the
  parameters \<open>path_basename\<close> and \<open>path_extname\<close>. A string is truthy when it is not
  empty.
\<close>

definition register ::
  "(string \<Rightarrow> string \<Rightarrow> string) \<Rightarrow> (string \<Rightarrow> string) \<Rightarrow>
   register_ext \<Rightarrow> register_body \<Rightarrow> photo list \<Rightarrow> error + photo \<times> photo list" where
  "register path_basename path_extname ext body db =
     (case b_cloudinaryId body of
        None \<Rightarrow> Inl (InvalidInput ''cloudinaryId manquant'')
      | Some cid \<Rightarrow>
          if cid = [] then Inl (InvalidInput ''cloudinaryId manquant'')
          else
            let (finalW, finalH) = final_dims body (x_resource ext);
                (ratio, orient) = classify finalW finalH;
                photo = \<lparr> p_id = x_uuid ext,
                          p_cloudinaryId = cid,
                          p_name = (case b_originalName body of
                                      None \<Rightarrow> last_segment cid
                                    | Some original \<Rightarrow>
                                        if original = [] then last_segment cid
                                        else path_basename original (path_extname original)),
                          p_w = finalW, p_h = finalH, p_ratio = ratio, p_orient = orient,
                          p_order = int (length db),
                          p_published = False,
                          p_createdAt = x_now ext \<rparr>
            in Inr (photo, db @ [photo]))"

text \<open>
  A sequence of register calls, each on the database the previous one wrote; a call
  answered with status 400 leaves the database as it was.
\<close>

fun register_calls ::
  "(string \<Rightarrow> string \<Rightarrow> string) \<Rightarrow> (string \<Rightarrow> string) \<Rightarrow>
   (register_ext \<times> register_body) list \<Rightarrow> photo list \<Rightarrow> photo list" where
  "register_calls path_basename path_extname [] db = db"
| "register_calls path_basename path_extname ((ext, body) # calls) db =
     register_calls path_basename path_extname calls
       (case register path_basename path_extname ext body db of
          Inl e \<Rightarrow> db
        | Inr (photo, db') \<Rightarrow> db')"

section \<open>PUT /api/admin/photos/:id\<close>

text \<open>The body of the request: each of the two fields is present or \<^verbatim>\<open>undefined\<close>.\<close>

record update_body =
  u_name :: "string option"
  u_order :: "int option"

definition apply_update :: "update_body \<Rightarrow> photo \<Rightarrow> photo" where
  "apply_update body photo =
     (let photo1 = (case u_name body of None \<Rightarrow> photo | Some n \<Rightarrow> photo\<lparr>p_name := n\<rparr>)
      in (case u_order body of None \<Rightarrow> photo1 | Some k \<Rightarrow> photo1\<lparr>p_order := k\<rparr>))"

definition update_photo :: "string \<Rightarrow> update_body \<Rightarrow> photo list \<Rightarrow> error + photo list" where
  "update_photo i body db =
     (case find (\<lambda>p. p_id p = i) db of
        None \<Rightarrow> Inl (NotFound ''Photo introuvable'')
      | Some photo \<Rightarrow> Inr (update_first (\<lambda>p. p_id p = i) (apply_update body) db))"

section \<open>DELETE /api/admin/photos/:id\<close>

text \<open>
  \<^verbatim>\<open>try { await cloudinary.uploader.destroy(photo.cloudinaryId); } catch(e) {}\<close>:
  whether the call returns or throws, the handler goes on.
\<close>

definition swallow :: "outcome \<Rightarrow> 'a \<Rightarrow> 'a" where
  "swallow r continue = (case r of Ok \<Rightarrow> continue | Throws \<Rightarrow> continue)"

definition delete_photo :: "outcome \<Rightarrow> string \<Rightarrow> photo list \<Rightarrow> error + photo list" where
  "delete_photo destroyed i db =
     (case find (\<lambda>p. p_id p = i) db of
        None \<Rightarrow> Inl (NotFound ''Photo introuvable'')
      | Some photo \<Rightarrow>
          swallow destroyed
            (Inr (for_each_index (\<lambda>k p. p\<lparr>p_order := int k\<rparr>)
                    (filter (\<lambda>p. p_id p \<noteq> i) db))))"

section \<open>POST /api/admin/publish\<close>

text \<open>
  The field \<^verbatim>\<open>ids\<close> of the body is \<open>Some\<close> list when \<^verbatim>\<open>Array.isArray(ids)\<close>, and
  \<open>None\<close> when it is absent or not an array. Its elements are strings: an element of
  another type is \<^verbatim>\<open>===\<close> to no id, as a string that no photo has. The result is the
  database handed to \<^verbatim>\<open>writeDB\<close> and the count \<^verbatim>\<open>published\<close> of the answer.
\<close>

definition publish :: "string list option \<Rightarrow> photo list \<Rightarrow> photo list \<times> nat" where
  "publish ids db =
     (let db1 = map (\<lambda>p. p\<lparr>p_published := False\<rparr>) db;
          db2 = (case ids of
                   Some l \<Rightarrow> for_each_id (\<lambda>k p. p\<lparr>p_published := True, p_order := int k\<rparr>) l 0 db1
                 | None \<Rightarrow> for_each_index (\<lambda>k p. p\<lparr>p_published := True, p_order := int k\<rparr>) db1)
      in (db2, length (filter p_published db2)))"

section \<open>POST /api/admin/reorder\<close>

text \<open>
  \<^verbatim>\<open>db.sort((a, b) => a.order - b.order)\<close>: the sort of the array is stable (Node 11
  and later), so it is the stable insertion sort \<open>sort_key\<close> on the order values.
\<close>

definition reorder :: "string list option \<Rightarrow> photo list \<Rightarrow> error + photo list" where
  "reorder ids db =
     (case ids of
        None \<Rightarrow> Inl (InvalidInput ''ids requis'')
      | Some l \<Rightarrow> Inr (sort_key p_order (for_each_id (\<lambda>k p. p\<lparr>p_order := int k\<rparr>) l 0 db)))"

section \<open>The database file and its copy in the cloud\<close>

text \<open>
  The local file \<^verbatim>\<open>photos.json\<close>, the temporary file \<^verbatim>\<open>_db_tmp.json\<close> and the raw
  object of the cloud. A file is missing, or it exists and cannot be read, or it has a
  content.
\<close>

datatype file_state = Missing | Unreadable | Content string

record store =
  db_file :: file_state
  tmp_file :: file_state
  remote :: "string option"

text \<open>
  The answer of \<^verbatim>\<open>fetch(url)\<close>: it throws (or a statement before it in the same
  \<^verbatim>\<open>try\<close> block does), or it is a response with its \<^verbatim>\<open>ok\<close> flag and its body.
\<close>

datatype fetch_result = FetchThrows | Response bool string

text \<open>
  \<^verbatim>\<open>readDB\<close>. \<^verbatim>\<open>JSON.parse\<close> and \<^verbatim>\<open>JSON.stringify(data, null, 2)\<close> belong to the
  platform: they are the parameters \<open>JSON_parse\<close> (\<open>None\<close> when it throws) and
  \<open>JSON_stringify\<close>. \<open>cache_write\<close> is the outcome of the \<^verbatim>\<open>fs.writeFileSync\<close> that
  fills the local file; a write that throws leaves the file as it was. The result is
  the data returned and the store afterwards.
\<close>

definition readDB ::
  "(string \<Rightarrow> 'a list option) \<Rightarrow> ('a list \<Rightarrow> string) \<Rightarrow>
   fetch_result \<Rightarrow> outcome \<Rightarrow> store \<Rightarrow> 'a list \<times> store" where
  "readDB JSON_parse JSON_stringify fetched cache_write st =
     (case (case db_file st of Content s \<Rightarrow> JSON_parse s | Missing \<Rightarrow> None | Unreadable \<Rightarrow> None) of
        Some data \<Rightarrow> (data, st)
      | None \<Rightarrow>
          (case fetched of
             FetchThrows \<Rightarrow> ([], st)
           | Response ok body \<Rightarrow>
               if ok then
                 (case JSON_parse body of
                    None \<Rightarrow> ([], st)
                  | Some data \<Rightarrow>
                      (data, case cache_write of
                               Ok \<Rightarrow> st\<lparr>db_file := Content (JSON_stringify data)\<rparr>
                             | Throws \<Rightarrow> st))
               else ([], st)))"

text \<open>
  \<^verbatim>\<open>writeDB\<close>, with the outcome of each of its four effects: the write of the local
  file, the write of the temporary file, the upload and the removal of the temporary
  file.
\<close>

record write_io =
  local_write :: outcome
  tmp_write :: outcome
  upload :: outcome
  unlink :: outcome

definition writeDB :: "('a list \<Rightarrow> string) \<Rightarrow> write_io \<Rightarrow> 'a list \<Rightarrow> store \<Rightarrow> store" where
  "writeDB JSON_stringify io data st =
     (let json = JSON_stringify data;
          st1 = (case local_write io of Ok \<Rightarrow> st\<lparr>db_file := Content json\<rparr> | Throws \<Rightarrow> st)
      in case tmp_write io of
           Throws \<Rightarrow> st1
         | Ok \<Rightarrow>
             (let st2 = st1\<lparr>tmp_file := Content json\<rparr>
              in case upload io of
                   Throws \<Rightarrow> st2
                 | Ok \<Rightarrow>
                     (let st3 = st2\<lparr>remote := Some json\<rparr>
                      in case unlink io of
                           Ok \<Rightarrow> st3\<lparr>tmp_file := Missing\<rparr>
                         | Throws \<Rightarrow> st3)))"

section \<open>Properties of the order values\<close>

text \<open>
  The order values of a list of photos are dense when, sorted, they are exactly
  \<open>0, 1, ..., n - 1\<close> for the \<open>n\<close> photos of the list: no gap and no duplicate.
\<close>

definition dense_orders :: "photo list \<Rightarrow> bool" where
  "dense_orders ps = (sort (map p_order ps) = map int [0..<length ps])"

text \<open>
  The last position of an element in a list, when it occurs: what the loop over
  \<^verbatim>\<open>ids\<close> leaves as the order of a photo whose id occurs more than once.
\<close>

fun last_pos :: "'a list \<Rightarrow> 'a \<Rightarrow> nat option" where
  "last_pos [] x = None"
| "last_pos (y # ys) x =
     (case last_pos ys x of
        Some k \<Rightarrow> Some (Suc k)
      | None \<Rightarrow> if y = x then Some 0 else None)"

text \<open>What the loop over \<^verbatim>\<open>ids\<close> does to one photo whose id no other photo has.\<close>

fun apply_ids :: "(nat \<Rightarrow> photo \<Rightarrow> photo) \<Rightarrow> string list \<Rightarrow> nat \<Rightarrow> photo \<Rightarrow> photo" where
  "apply_ids g [] i p = p"
| "apply_ids g (x # ids) i p = apply_ids g ids (Suc i) (if p_id p = x then g i p else p)"

section \<open>Example data\<close>

text \<open>A photo with a given id and order value, for the concrete instances below.\<close>

definition photo_stub :: "string \<Rightarrow> int \<Rightarrow> photo" where
  "photo_stub i k = \<lparr> p_id = i, p_cloudinaryId = ''atelier-portfolio/photos/'' @ i, p_name = i,
     p_w = 0, p_h = 0, p_ratio = 1, p_orient = Sq, p_order = k, p_published = False,
     p_createdAt = ''2024-01-01T00:00:00.000Z'' \<rparr>"

text \<open>
  Stand-ins for Node's \<^verbatim>\<open>path.extname\<close> and \<^verbatim>\<open>path.basename\<close> in the concrete
  instances: on a plain file name with one extension, such as \<^verbatim>\<open>IMG_1.jpg\<close>, they
  give \<^verbatim>\<open>.jpg\<close> and \<^verbatim>\<open>IMG_1\<close>. The theorems hold for every pair of functions.
\<close>

definition dot_extname :: "string \<Rightarrow> string" where
  "dot_extname path =
     (if CHR ''.'' \<in> set path
      then CHR ''.'' # rev (takeWhile (\<lambda>c. c \<noteq> CHR ''.'') (rev path))
      else [])"

definition stem_basename :: "string \<Rightarrow> string \<Rightarrow> string" where
  "stem_basename path ext = take (length path - length ext) path"

text \<open>
  A register call for an upload with known dimensions, where the id generator answers
  \<open>u\<close>.
\<close>

definition register_stub :: "string \<Rightarrow> register_ext \<times> register_body" where
  "register_stub u =
     (\<lparr> x_resource = None, x_uuid = u, x_now = ''2024-01-01T00:00:00.000Z'' \<rparr>,
      \<lparr> b_cloudinaryId = Some (''atelier-portfolio/photos/'' @ u), b_originalName = None,
        b_w = Some 800, b_h = Some 600 \<rparr>)"

text \<open>
  A toy serialisation for the concrete instances of \<^verbatim>\<open>readDB\<close> and \<^verbatim>\<open>writeDB\<close>: the
  ids of the photos, each followed by a semicolon; the parser knows the empty
  collection and the collection of the single photo \<open>photo_stub ''a'' 0\<close>, and throws on
  anything else. The theorems hold for every parser and every serialiser.
\<close>

definition stub_stringify :: "photo list \<Rightarrow> string" where
  "stub_stringify data = concat (map (\<lambda>p. p_id p @ '';'') data)"

definition stub_parse :: "string \<Rightarrow> photo list option" where
  "stub_parse s =
     (if s = [] then Some []
      else if s = ''a;'' then Some [photo_stub ''a'' 0]
      else None)"

text \<open>The store of a fresh instance: no local file, nothing uploaded yet.\<close>

definition empty_store :: store where
  "empty_store = \<lparr> db_file = Missing, tmp_file = Missing, remote = None \<rparr>"

section \<open>The geometry classifier\<close>

lemma classify_examples:
  "classify 1920 1080 = (16 / 9, Land)"
  "classify 1080 1920 = (9 / 16, Port)"
  "classify 1000 1000 = (1, Sq)"
  "classify 0 0 = (1, Sq)"
  by (simp_all add: classify_def Let_def)

text \<open>
  Claim C6, as amended. The ratio is \<open>width / height\<close> when both dimensions are
  not zero and 1 when one of them is zero; the orientation is landscape above 1.15,
  portrait below 0.87 and square otherwise. On dimensions that are not negative this
  is the classifier of the specification, which takes the quotient when both are
  greater than 0. \<open>classify 1920 1080\<close> is landscape, \<open>classify 1080 1920\<close> is
  portrait, \<open>classify 1000 1000\<close> is square and \<open>classify 0 0\<close> is square with
  ratio 1.
\<close>

theorem classify_nonzero:
  "classify width height =
     (let ratio = (if width \<noteq> 0 \<and> height \<noteq> 0 then of_int width / of_int height else 1)
      in (ratio, if ratio > 115 / 100 then Land else if ratio < 87 / 100 then Port else Sq))
   \<and> (0 \<le> width \<and> 0 \<le> height \<longrightarrow> classify width height = classify_spec width height)
   \<and> snd (classify 1920 1080) = Land
   \<and> snd (classify 1080 1920) = Port
   \<and> snd (classify 1000 1000) = Sq
   \<and> classify 0 0 = (1, Sq)"
proof -
  have "0 \<le> width \<and> 0 \<le> height \<longrightarrow> classify width height = classify_spec width height"
  proof
    assume "0 \<le> width \<and> 0 \<le> height"
    then have "(width \<noteq> 0 \<and> height \<noteq> 0) = (0 < width \<and> 0 < height)" by auto
    then show "classify width height = classify_spec width height"
      by (simp only: classify_def classify_spec_def)
  qed
  then show ?thesis
    by (simp add: classify_examples) (simp add: classify_def Let_def)
qed

theorem classify_nonzero_witness:
  "(0::int) \<le> 1920 \<and> (0::int) \<le> 1080
   \<and> classify 1920 1080 = classify_spec 1920 1080
   \<and> classify 1920 1080 = (16 / 9, Land)"
  using classify_nonzero [of 1920 1080] by (simp add: classify_examples)

text \<open>
  Claim C6 as the specification states it fails on a negative dimension, which
  \<^verbatim>\<open>parseInt(w) || 0\<close> lets through: the code divides, the specification says 1.
\<close>

theorem classify_negative_counterexample:
  "classify (- 5) 3 = (- 5 / 3, Port) \<and> classify_spec (- 5) 3 = (1, Sq)
   \<and> classify (- 5) 3 \<noteq> classify_spec (- 5) 3"
  by (simp add: classify_def classify_spec_def Let_def)

section \<open>The loop over the ids of a request\<close>

lemma update_first_distinct:
  "distinct (map p_id db) \<Longrightarrow>
   update_first (\<lambda>p. p_id p = x) g db = map (\<lambda>p. if p_id p = x then g p else p) db"
proof (induction db)
  case Nil
  then show ?case by simp
next
  case (Cons a db)
  show ?case
  proof (cases "p_id a = x")
    case True
    with Cons.prems have "\<forall>p\<in>set db. p_id p \<noteq> x" by (auto simp: image_iff)
    then have "map (\<lambda>p. if p_id p = x then g p else p) db = db"
      by (simp add: map_idI)
    with True show ?thesis by simp
  next
    case False
    with Cons show ?thesis by simp
  qed
qed

lemma for_each_id_map:
  "distinct (map p_id db) \<Longrightarrow> (\<And>k p. p_id (g k p) = p_id p) \<Longrightarrow>
   for_each_id g ids i db = map (apply_ids g ids i) db"
proof (induction ids arbitrary: i db)
  case Nil
  then show ?case by simp
next
  case (Cons x ids)
  let ?db = "map (\<lambda>p. if p_id p = x then g i p else p) db"
  have ids: "map p_id ?db = map p_id db"
    by (simp add: Cons.prems(2))
  have "for_each_id g (x # ids) i db = for_each_id g ids (Suc i) ?db"
    by (simp add: update_first_distinct [OF Cons.prems(1)])
  also have "\<dots> = map (apply_ids g ids (Suc i)) ?db"
  proof (rule Cons.IH)
    show "distinct (map p_id ?db)" using Cons.prems(1) by (simp only: ids)
    show "\<And>k p. p_id (g k p) = p_id p" by (rule Cons.prems(2))
  qed
  also have "\<dots> = map (apply_ids g (x # ids) i) db"
    by simp
  finally show ?case .
qed

lemma last_pos_None: "last_pos xs x = None \<longleftrightarrow> x \<notin> set xs"
  by (induction xs) (auto split: option.splits)

lemma last_pos_Some:
  "last_pos xs x = Some k \<Longrightarrow> k < length xs \<and> xs ! k = x \<and> (\<forall>j. k < j \<and> j < length xs \<longrightarrow> xs ! j \<noteq> x)"
proof (induction xs arbitrary: k)
  case Nil
  then show ?case by simp
next
  case (Cons y ys)
  show ?case
  proof (cases "last_pos ys x")
    case None
    with Cons.prems have k: "k = 0" "y = x" by (auto split: if_splits)
    from None have "x \<notin> set ys" by (simp add: last_pos_None)
    then have "\<forall>j. 0 < j \<and> j < length (y # ys) \<longrightarrow> (y # ys) ! j \<noteq> x"
      by (auto simp: nth_Cons split: nat.splits)
    with k show ?thesis by simp
  next
    case (Some m)
    with Cons.prems have k: "k = Suc m" by simp
    from Cons.IH [OF Some] have m: "m < length ys" "ys ! m = x"
      and later: "\<forall>j. m < j \<and> j < length ys \<longrightarrow> ys ! j \<noteq> x" by auto
    have "\<forall>j. Suc m < j \<and> j < length (y # ys) \<longrightarrow> (y # ys) ! j \<noteq> x"
      using later by (auto simp: nth_Cons split: nat.splits)
    with k m show ?thesis by simp
  qed
qed

lemma last_pos_distinct: "distinct xs \<Longrightarrow> k < length xs \<Longrightarrow> last_pos xs (xs ! k) = Some k"
proof (induction xs arbitrary: k)
  case Nil
  then show ?case by simp
next
  case (Cons y ys)
  show ?case
  proof (cases k)
    case 0
    from Cons.prems have "y \<notin> set ys" by simp
    then have "last_pos ys y = None" by (simp add: last_pos_None)
    with 0 show ?thesis by simp
  next
    case (Suc m)
    with Cons.prems have "last_pos ys (ys ! m) = Some m" by (intro Cons.IH) simp_all
    with Suc show ?thesis by simp
  qed
qed

lemma apply_ids_last_pos:
  assumes keep: "\<And>k p. p_id (g k p) = p_id p"
    and over: "\<And>j k p. g k (g j p) = g k p"
  shows "apply_ids g ids i p = (case last_pos ids (p_id p) of None \<Rightarrow> p | Some k \<Rightarrow> g (i + k) p)"
proof (induction ids arbitrary: i p)
  case Nil
  then show ?case by simp
next
  case (Cons x ids)
  show ?case
  proof (cases "p_id p = x")
    case True
    then show ?thesis
      by (simp add: Cons.IH keep over split: option.splits)
  next
    case False
    then show ?thesis
      by (simp add: Cons.IH split: option.splits)
  qed
qed

lemma update_first_keeps_ids:
  "(\<And>p. p_id (g p) = p_id p) \<Longrightarrow> map p_id (update_first P g db) = map p_id db"
  by (induction db) simp_all

lemma update_first_absent:
  "\<forall>p\<in>set db. \<not> P p \<Longrightarrow> update_first P g db = db"
  by (induction db) simp_all

lemma for_each_id_append:
  "for_each_id g (xs @ ys) i db = for_each_id g ys (i + length xs) (for_each_id g xs i db)"
  by (induction xs arbitrary: i db) simp_all

lemma for_each_id_keeps_ids:
  "(\<And>k p. p_id (g k p) = p_id p) \<Longrightarrow> map p_id (for_each_id g ids i db) = map p_id db"
  by (induction ids arbitrary: i db) (simp_all add: update_first_keeps_ids)

lemma for_each_id_snoc_absent:
  assumes keep: "\<And>k p. p_id (g k p) = p_id p" and absent: "x \<notin> p_id ` set db"
  shows "for_each_id g (ids @ [x]) i db = for_each_id g ids i db"
proof -
  have "p_id ` set (for_each_id g ids i db) = p_id ` set db"
    using for_each_id_keeps_ids [of g ids i db, OF keep] by (metis set_map)
  with absent have "\<forall>p\<in>set (for_each_id g ids i db). \<not> p_id p = x" by auto
  then show ?thesis
    by (simp add: for_each_id_append update_first_absent)
qed

lemma for_each_index_nth:
  "length (for_each_index g db) = length db"
  "k < length db \<Longrightarrow> for_each_index g db ! k = g k (db ! k)"
  by (simp_all add: for_each_index_def nth_enumerate_eq)

lemma publish_ids_map:
  assumes "distinct (map p_id db)"
  shows "fst (publish (Some ids) db) =
     map (\<lambda>p. case last_pos ids (p_id p) of
                 None \<Rightarrow> p\<lparr>p_published := False\<rparr>
               | Some k \<Rightarrow> p\<lparr>p_published := True, p_order := int k\<rparr>) db"
proof -
  let ?g = "\<lambda>k p. p\<lparr>p_published := True, p_order := int k\<rparr>"
  let ?db1 = "map (\<lambda>p. p\<lparr>p_published := False\<rparr>) db"
  have d1: "distinct (map p_id ?db1)"
    using assms by (simp add: comp_def)
  have "for_each_id ?g ids 0 ?db1 = map (apply_ids ?g ids 0) ?db1"
    by (rule for_each_id_map [OF d1]) simp
  also have "\<dots> = map (\<lambda>p. case last_pos ids (p_id p) of None \<Rightarrow> p | Some k \<Rightarrow> ?g (0 + k) p) ?db1"
  proof -
    have eq: "\<And>p. apply_ids ?g ids 0 p = (case last_pos ids (p_id p) of None \<Rightarrow> p | Some k \<Rightarrow> ?g (0 + k) p)"
      by (rule apply_ids_last_pos) simp_all
    show ?thesis by (rule list.map_cong0, rule eq)
  qed
  also have "\<dots> = map (\<lambda>p. case last_pos ids (p_id p) of
                 None \<Rightarrow> p\<lparr>p_published := False\<rparr>
               | Some k \<Rightarrow> p\<lparr>p_published := True, p_order := int k\<rparr>) db"
    by (simp add: comp_def split: option.splits)
  finally show ?thesis
    by (simp add: publish_def)
qed

lemma reorder_ids_map:
  assumes "distinct (map p_id db)"
  shows "for_each_id (\<lambda>k p. p\<lparr>p_order := int k\<rparr>) ids 0 db =
     map (\<lambda>p. case last_pos ids (p_id p) of
                 None \<Rightarrow> p
               | Some k \<Rightarrow> p\<lparr>p_order := int k\<rparr>) db"
proof -
  let ?g = "\<lambda>k p. p\<lparr>p_order := int k\<rparr>"
  have "for_each_id ?g ids 0 db = map (apply_ids ?g ids 0) db"
    by (rule for_each_id_map [OF assms]) simp
  also have "\<dots> = map (\<lambda>p. case last_pos ids (p_id p) of None \<Rightarrow> p | Some k \<Rightarrow> ?g (0 + k) p) db"
  proof -
    have eq: "\<And>p. apply_ids ?g ids 0 p = (case last_pos ids (p_id p) of None \<Rightarrow> p | Some k \<Rightarrow> ?g (0 + k) p)"
      by (rule apply_ids_last_pos) simp_all
    show ?thesis by (rule list.map_cong0, rule eq)
  qed
  finally show ?thesis by (simp cong: option.case_cong)
qed

lemma publish_none_fst:
  "fst (publish None db) = for_each_index (\<lambda>k p. p\<lparr>p_published := True, p_order := int k\<rparr>) db"
  unfolding publish_def for_each_index_def Let_def
  by (simp, rule nth_equalityI) (simp_all add: nth_enumerate_eq)

section \<open>Bulk publish\<close>

text \<open>
  Claim C3. In a collection whose ids are unique, after a publish with the list
  \<open>ids\<close> every photo whose id occurs in the list is published with its order equal
  to the position of its id in the list (the last one, when the id occurs more than
  once), and every other photo is unpublished and otherwise unchanged. An id of the
  list that no photo has is skipped: adding it to the list changes nothing. With no
  list, every photo is published, the collection keeps its sequence, and the order
  values number the photos in that sequence.
\<close>

theorem publish_marks_listed:
  "(distinct (map p_id db) \<longrightarrow>
      length (fst (publish (Some ids) db)) = length db
      \<and> (\<forall>k<length db.
            (p_id (db ! k) \<in> set ids \<longrightarrow>
               (\<exists>i<length ids. ids ! i = p_id (db ! k)
                  \<and> (\<forall>j. i < j \<and> j < length ids \<longrightarrow> ids ! j \<noteq> p_id (db ! k))
                  \<and> fst (publish (Some ids) db) ! k = (db ! k)\<lparr>p_published := True, p_order := int i\<rparr>))
          \<and> (p_id (db ! k) \<notin> set ids \<longrightarrow>
               fst (publish (Some ids) db) ! k = (db ! k)\<lparr>p_published := False\<rparr>)))
   \<and> (x \<notin> p_id ` set db \<longrightarrow> publish (Some (ids @ [x])) db = publish (Some ids) db)
   \<and> length (fst (publish None db)) = length db
   \<and> (\<forall>k<length db. fst (publish None db) ! k = (db ! k)\<lparr>p_published := True, p_order := int k\<rparr>)
   \<and> map p_id (fst (publish None db)) = map p_id db"
proof -
  have listed: "distinct (map p_id db) \<longrightarrow>
      length (fst (publish (Some ids) db)) = length db
      \<and> (\<forall>k<length db.
            (p_id (db ! k) \<in> set ids \<longrightarrow>
               (\<exists>i<length ids. ids ! i = p_id (db ! k)
                  \<and> (\<forall>j. i < j \<and> j < length ids \<longrightarrow> ids ! j \<noteq> p_id (db ! k))
                  \<and> fst (publish (Some ids) db) ! k = (db ! k)\<lparr>p_published := True, p_order := int i\<rparr>))
          \<and> (p_id (db ! k) \<notin> set ids \<longrightarrow>
               fst (publish (Some ids) db) ! k = (db ! k)\<lparr>p_published := False\<rparr>))"
  proof
    assume d: "distinct (map p_id db)"
    note eq = publish_ids_map [OF d, of ids]
    have len: "length (fst (publish (Some ids) db)) = length db"
      by (simp add: eq)
    have each: "(p_id (db ! k) \<in> set ids \<longrightarrow>
               (\<exists>i<length ids. ids ! i = p_id (db ! k)
                  \<and> (\<forall>j. i < j \<and> j < length ids \<longrightarrow> ids ! j \<noteq> p_id (db ! k))
                  \<and> fst (publish (Some ids) db) ! k = (db ! k)\<lparr>p_published := True, p_order := int i\<rparr>))
          \<and> (p_id (db ! k) \<notin> set ids \<longrightarrow>
               fst (publish (Some ids) db) ! k = (db ! k)\<lparr>p_published := False\<rparr>)"
      if k: "k < length db" for k
    proof (cases "last_pos ids (p_id (db ! k))")
      case None
      then have "p_id (db ! k) \<notin> set ids" by (simp add: last_pos_None)
      with None k show ?thesis by (simp add: eq)
    next
      case (Some i)
      then have "p_id (db ! k) \<in> set ids"
        using last_pos_None [of ids "p_id (db ! k)"] by simp
      moreover from Some k
      have "fst (publish (Some ids) db) ! k = (db ! k)\<lparr>p_published := True, p_order := int i\<rparr>"
        by (simp add: eq)
      ultimately show ?thesis
        using last_pos_Some [OF Some] by blast
    qed
    from len each show "length (fst (publish (Some ids) db)) = length db
      \<and> (\<forall>k<length db.
            (p_id (db ! k) \<in> set ids \<longrightarrow>
               (\<exists>i<length ids. ids ! i = p_id (db ! k)
                  \<and> (\<forall>j. i < j \<and> j < length ids \<longrightarrow> ids ! j \<noteq> p_id (db ! k))
                  \<and> fst (publish (Some ids) db) ! k = (db ! k)\<lparr>p_published := True, p_order := int i\<rparr>))
          \<and> (p_id (db ! k) \<notin> set ids \<longrightarrow>
               fst (publish (Some ids) db) ! k = (db ! k)\<lparr>p_published := False\<rparr>))"
      by blast
  qed
  have skipped: "x \<notin> p_id ` set db \<longrightarrow> publish (Some (ids @ [x])) db = publish (Some ids) db"
  proof
    assume "x \<notin> p_id ` set db"
    then have "x \<notin> p_id ` set (map (\<lambda>p. p\<lparr>p_published := False\<rparr>) db)"
      by (simp add: image_image)
    then have "for_each_id (\<lambda>k p. p\<lparr>p_published := True, p_order := int k\<rparr>) (ids @ [x]) 0
                 (map (\<lambda>p. p\<lparr>p_published := False\<rparr>) db)
             = for_each_id (\<lambda>k p. p\<lparr>p_published := True, p_order := int k\<rparr>) ids 0
                 (map (\<lambda>p. p\<lparr>p_published := False\<rparr>) db)"
      by (intro for_each_id_snoc_absent) simp_all
    then show "publish (Some (ids @ [x])) db = publish (Some ids) db"
      by (simp add: publish_def)
  qed
  have none_len: "length (fst (publish None db)) = length db"
    by (simp add: publish_none_fst for_each_index_nth)
  have none_each: "\<forall>k<length db. fst (publish None db) ! k = (db ! k)\<lparr>p_published := True, p_order := int k\<rparr>"
    by (simp add: publish_none_fst for_each_index_nth)
  have none_ids: "map p_id (fst (publish None db)) = map p_id db"
    by (rule nth_equalityI) (simp_all add: none_len none_each)
  from listed skipped none_len none_each none_ids show ?thesis by blast
qed

theorem publish_marks_listed_witness:
  "distinct (map p_id [photo_stub ''a'' 0, photo_stub ''b'' 1, photo_stub ''c'' 2])
   \<and> ''c'' \<in> set [''a'', ''c'']
   \<and> ''zz'' \<notin> p_id ` set [photo_stub ''a'' 0, photo_stub ''b'' 1, photo_stub ''c'' 2]
   \<and> publish (Some [''a'', ''c'']) [photo_stub ''a'' 0, photo_stub ''b'' 1, photo_stub ''c'' 2]
     = ([(photo_stub ''a'' 0)\<lparr>p_published := True\<rparr>, photo_stub ''b'' 1,
         (photo_stub ''c'' 1)\<lparr>p_published := True\<rparr>], 2)
   \<and> publish (Some [''a'', ''c'', ''zz'']) [photo_stub ''a'' 0, photo_stub ''b'' 1, photo_stub ''c'' 2]
     = publish (Some [''a'', ''c'']) [photo_stub ''a'' 0, photo_stub ''b'' 1, photo_stub ''c'' 2]"
  using publish_marks_listed
    [of "[photo_stub ''a'' 0, photo_stub ''b'' 1, photo_stub ''c'' 2]" "[''a'', ''c'']" "''zz''"]
  by (simp add: publish_def photo_stub_def)

text \<open>
  Claim C10. An empty list takes the branch of the list: every photo is unpublished
  and the count of the answer is 0. With no list, every photo is published and the
  count is the size of the collection.
\<close>

theorem publish_empty_list:
  "publish (Some []) db = (map (\<lambda>p. p\<lparr>p_published := False\<rparr>) db, 0)
   \<and> list_all (\<lambda>p. \<not> p_published p) (fst (publish (Some []) db))
   \<and> fst (publish None db) = map (\<lambda>(k, p). p\<lparr>p_published := True, p_order := int k\<rparr>) (enumerate 0 db)
   \<and> list_all p_published (fst (publish None db))
   \<and> snd (publish None db) = length db"
proof -
  have a: "publish (Some []) db = (map (\<lambda>p. p\<lparr>p_published := False\<rparr>) db, 0)"
    by (simp add: publish_def comp_def)
  have b: "fst (publish None db) = map (\<lambda>(k, p). p\<lparr>p_published := True, p_order := int k\<rparr>) (enumerate 0 db)"
    by (simp add: publish_none_fst for_each_index_def)
  have c: "list_all p_published (fst (publish None db))"
    by (simp add: b list_all_iff split_def)
  have "filter p_published (fst (publish None db)) = fst (publish None db)"
    using c by (simp add: list_all_iff)
  then have d: "snd (publish None db) = length db"
    using publish_none_fst [of db] by (simp add: publish_def Let_def for_each_index_nth)
  from a b c d show ?thesis
    by (simp add: list_all_iff)
qed

section \<open>Full reorder\<close>

text \<open>
  Claim C4. A reorder whose \<^verbatim>\<open>ids\<close> is not a list is answered with status 400, and
  a reorder with a list never is. With a list, the collection written is the stable
  sort by order value of the collection \<open>assigned\<close>, in which (the ids of the
  collection being unique) every photo whose id occurs in the list has the position
  of its id in the list as its order (the last one, when the id occurs more than once)
  and every other photo is unchanged. The result is sorted by order value, holds the
  same photos, and keeps photos of equal order value in their sequence. On a
  collection \<open>[a, b, c]\<close> where the order of \<open>c\<close> is at least 1, the reorder with the
  list of the ids of \<open>b\<close> and \<open>a\<close> gives \<open>b, a, c\<close>.
\<close>

theorem reorder_assigns_and_sorts:
  "reorder None db = Inl (InvalidInput ''ids requis'')
   \<and> (\<exists>assigned.
         reorder (Some ids) db = Inr (sort_key p_order assigned)
         \<and> length assigned = length db
         \<and> (distinct (map p_id db) \<longrightarrow>
              (\<forall>k<length db.
                 (p_id (db ! k) \<in> set ids \<longrightarrow>
                    (\<exists>i<length ids. ids ! i = p_id (db ! k)
                       \<and> (\<forall>j. i < j \<and> j < length ids \<longrightarrow> ids ! j \<noteq> p_id (db ! k))
                       \<and> assigned ! k = (db ! k)\<lparr>p_order := int i\<rparr>))
               \<and> (p_id (db ! k) \<notin> set ids \<longrightarrow> assigned ! k = db ! k)))
         \<and> sorted (map p_order (sort_key p_order assigned))
         \<and> mset (sort_key p_order assigned) = mset assigned
         \<and> (\<forall>v. filter (\<lambda>p. p_order p = v) (sort_key p_order assigned)
                 = filter (\<lambda>p. p_order p = v) assigned))
   \<and> (distinct [p_id a, p_id b, p_id c] \<and> 1 \<le> p_order c \<longrightarrow>
         reorder (Some [p_id b, p_id a]) [a, b, c]
           = Inr [b\<lparr>p_order := 0\<rparr>, a\<lparr>p_order := 1\<rparr>, c])"
proof -
  let ?assigned = "for_each_id (\<lambda>k p. p\<lparr>p_order := int k\<rparr>) ids 0 db"
  have r: "reorder (Some ids) db = Inr (sort_key p_order ?assigned)"
    by (simp add: reorder_def)
  have "map p_id ?assigned = map p_id db"
    by (rule for_each_id_keeps_ids) simp
  then have len: "length ?assigned = length db"
    by (metis length_map)
  have each: "distinct (map p_id db) \<longrightarrow>
              (\<forall>k<length db.
                 (p_id (db ! k) \<in> set ids \<longrightarrow>
                    (\<exists>i<length ids. ids ! i = p_id (db ! k)
                       \<and> (\<forall>j. i < j \<and> j < length ids \<longrightarrow> ids ! j \<noteq> p_id (db ! k))
                       \<and> ?assigned ! k = (db ! k)\<lparr>p_order := int i\<rparr>))
               \<and> (p_id (db ! k) \<notin> set ids \<longrightarrow> ?assigned ! k = db ! k))"
  proof (intro impI allI)
    fix k
    assume d: "distinct (map p_id db)" and k: "k < length db"
    note eq = reorder_ids_map [OF d, of ids]
    show "(p_id (db ! k) \<in> set ids \<longrightarrow>
                    (\<exists>i<length ids. ids ! i = p_id (db ! k)
                       \<and> (\<forall>j. i < j \<and> j < length ids \<longrightarrow> ids ! j \<noteq> p_id (db ! k))
                       \<and> ?assigned ! k = (db ! k)\<lparr>p_order := int i\<rparr>))
               \<and> (p_id (db ! k) \<notin> set ids \<longrightarrow> ?assigned ! k = db ! k)"
    proof (cases "last_pos ids (p_id (db ! k))")
      case None
      then have "p_id (db ! k) \<notin> set ids" by (simp add: last_pos_None)
      with None k show ?thesis by (simp add: eq)
    next
      case (Some i)
      then have "p_id (db ! k) \<in> set ids"
        using last_pos_None [of ids "p_id (db ! k)"] by simp
      moreover from Some k have "?assigned ! k = (db ! k)\<lparr>p_order := int i\<rparr>"
        by (simp add: eq)
      ultimately show ?thesis
        using last_pos_Some [OF Some] by blast
    qed
  qed
  have sorted: "sorted (map p_order (sort_key p_order ?assigned))"
    by (rule sorted_sort_key)
  have perm: "mset (sort_key p_order ?assigned) = mset ?assigned"
    by simp
  have stable: "\<forall>v. filter (\<lambda>p. p_order p = v) (sort_key p_order ?assigned)
                 = filter (\<lambda>p. p_order p = v) ?assigned"
    by (simp add: sort_key_stable)
  have example: "distinct [p_id a, p_id b, p_id c] \<and> 1 \<le> p_order c \<longrightarrow>
         reorder (Some [p_id b, p_id a]) [a, b, c]
           = Inr [b\<lparr>p_order := 0\<rparr>, a\<lparr>p_order := 1\<rparr>, c]"
    by (auto simp: reorder_def)
  from r len each sorted perm stable have
    "\<exists>assigned.
         reorder (Some ids) db = Inr (sort_key p_order assigned)
         \<and> length assigned = length db
         \<and> (distinct (map p_id db) \<longrightarrow>
              (\<forall>k<length db.
                 (p_id (db ! k) \<in> set ids \<longrightarrow>
                    (\<exists>i<length ids. ids ! i = p_id (db ! k)
                       \<and> (\<forall>j. i < j \<and> j < length ids \<longrightarrow> ids ! j \<noteq> p_id (db ! k))
                       \<and> assigned ! k = (db ! k)\<lparr>p_order := int i\<rparr>))
               \<and> (p_id (db ! k) \<notin> set ids \<longrightarrow> assigned ! k = db ! k)))
         \<and> sorted (map p_order (sort_key p_order assigned))
         \<and> mset (sort_key p_order assigned) = mset assigned
         \<and> (\<forall>v. filter (\<lambda>p. p_order p = v) (sort_key p_order assigned)
                 = filter (\<lambda>p. p_order p = v) assigned)"
    by (intro exI [of _ ?assigned] conjI)
  with example show ?thesis
    by (simp add: reorder_def)
qed

theorem reorder_assigns_and_sorts_witness:
  "distinct (map p_id [photo_stub ''a'' 0, photo_stub ''b'' 1, photo_stub ''c'' 2])
   \<and> distinct [p_id (photo_stub ''a'' 0), p_id (photo_stub ''b'' 1), p_id (photo_stub ''c'' 2)]
   \<and> 1 \<le> p_order (photo_stub ''c'' 2)
   \<and> reorder (Some [''b'', ''a'']) [photo_stub ''a'' 0, photo_stub ''b'' 1, photo_stub ''c'' 2]
       = Inr [photo_stub ''b'' 0, photo_stub ''a'' 1, photo_stub ''c'' 2]"
  using reorder_assigns_and_sorts
    [of "[photo_stub ''a'' 0, photo_stub ''b'' 1, photo_stub ''c'' 2]" "[''b'', ''a'']"
        "photo_stub ''a'' 0" "photo_stub ''b'' 1" "photo_stub ''c'' 2"]
  by (simp add: photo_stub_def)

section \<open>Delete and partial update\<close>

lemma find_None_ids: "find (\<lambda>p. p_id p = i) db = None \<longleftrightarrow> i \<notin> p_id ` set db"
  by (auto simp: find_None_iff)

lemma update_first_at:
  "k < length xs \<Longrightarrow> P (xs ! k) \<Longrightarrow> (\<forall>j<k. \<not> P (xs ! j)) \<Longrightarrow>
   update_first P g xs = xs[k := g (xs ! k)]"
proof (induction xs arbitrary: k)
  case Nil
  then show ?case by simp
next
  case (Cons x xs)
  show ?case
  proof (cases k)
    case 0
    with Cons.prems show ?thesis by simp
  next
    case (Suc m)
    from Cons.prems(3) Suc have "\<not> P x" by auto
    moreover have "update_first P g xs = xs[m := g (xs ! m)]"
    proof (rule Cons.IH)
      show "m < length xs" using Cons.prems(1) Suc by simp
      show "P (xs ! m)" using Cons.prems(2) Suc by simp
      show "\<forall>j<m. \<not> P (xs ! j)" using Cons.prems(3) Suc by auto
    qed
    ultimately show ?thesis using Suc by simp
  qed
qed

lemma dense_orders_upt: "map p_order ps = map int [0..<length ps] \<Longrightarrow> dense_orders ps"
proof -
  assume eq: "map p_order ps = map int [0..<length ps]"
  have "sorted (map int [0..<length ps])"
    by (simp add: sorted_map sorted_wrt_iff_nth_less)
  then show ?thesis
    by (simp add: dense_orders_def eq sorted_sort_id)
qed

lemma for_each_index_orders:
  "map p_order (for_each_index (\<lambda>k p. g p\<lparr>p_order := int k\<rparr>) ps) = map int [0..<length ps]"
  by (rule nth_equalityI) (simp_all add: for_each_index_nth)

text \<open>
  Claim C5. A delete is answered with status 404 exactly when no photo of the
  collection has the id. Otherwise the photos with that id are removed, the remaining
  ones keep their sequence and get their index as order value, so that the order
  values are \<open>0, ..., n - 1\<close>, and a second delete of the same id on the collection
  written is answered with status 404. Whether the deletion of the binary in the
  cloud throws or not changes nothing.
\<close>

theorem delete_photo_not_found:
  "(delete_photo destroyed i db = Inl (NotFound ''Photo introuvable'')) = (i \<notin> p_id ` set db)
   \<and> (i \<in> p_id ` set db \<longrightarrow>
        (\<exists>db'. delete_photo destroyed i db = Inr db'
           \<and> length db' = length (filter (\<lambda>p. p_id p \<noteq> i) db)
           \<and> (\<forall>k<length db'. db' ! k = (filter (\<lambda>p. p_id p \<noteq> i) db ! k)\<lparr>p_order := int k\<rparr>)
           \<and> i \<notin> p_id ` set db'
           \<and> map p_order db' = map int [0..<length db']
           \<and> dense_orders db'
           \<and> delete_photo destroyed' i db' = Inl (NotFound ''Photo introuvable'')))
   \<and> delete_photo Throws i db = delete_photo Ok i db"
proof -
  let ?rest = "filter (\<lambda>p. p_id p \<noteq> i) db"
  let ?db' = "for_each_index (\<lambda>k p. p\<lparr>p_order := int k\<rparr>) ?rest"
  have nf: "(delete_photo destroyed i db = Inl (NotFound ''Photo introuvable'')) = (i \<notin> p_id ` set db)"
    using find_None_ids [of i db]
    by (auto simp: delete_photo_def swallow_def split: option.splits outcome.splits)
  have same: "delete_photo Throws i db = delete_photo Ok i db"
    by (simp add: delete_photo_def swallow_def split: option.splits)
  have present: "i \<in> p_id ` set db \<longrightarrow>
        (\<exists>db'. delete_photo destroyed i db = Inr db'
           \<and> length db' = length (filter (\<lambda>p. p_id p \<noteq> i) db)
           \<and> (\<forall>k<length db'. db' ! k = (filter (\<lambda>p. p_id p \<noteq> i) db ! k)\<lparr>p_order := int k\<rparr>)
           \<and> i \<notin> p_id ` set db'
           \<and> map p_order db' = map int [0..<length db']
           \<and> dense_orders db'
           \<and> delete_photo destroyed' i db' = Inl (NotFound ''Photo introuvable''))"
  proof
    assume "i \<in> p_id ` set db"
    then obtain photo where "find (\<lambda>p. p_id p = i) db = Some photo"
      using find_None_ids [of i db] by (cases "find (\<lambda>p. p_id p = i) db") auto
    then have del: "delete_photo destroyed i db = Inr ?db'"
      by (simp add: delete_photo_def swallow_def split: outcome.splits)
    have len: "length ?db' = length ?rest"
      by (simp add: for_each_index_nth)
    have each: "\<forall>k<length ?db'. ?db' ! k = (?rest ! k)\<lparr>p_order := int k\<rparr>"
      by (simp add: for_each_index_nth)
    have "map p_id ?db' = map p_id ?rest"
      by (rule nth_equalityI) (simp_all add: for_each_index_nth)
    then have "p_id ` set ?db' = p_id ` set ?rest"
      by (metis set_map)
    then have gone: "i \<notin> p_id ` set ?db'"
      by auto
    have orders: "map p_order ?db' = map int [0..<length ?db']"
      using for_each_index_orders [of "\<lambda>p. p" ?rest] by (simp add: len)
    have dense: "dense_orders ?db'"
      by (rule dense_orders_upt [OF orders])
    have again: "delete_photo destroyed' i ?db' = Inl (NotFound ''Photo introuvable'')"
      using gone find_None_ids [of i ?db'] by (simp add: delete_photo_def)
    from del len each gone orders dense again
    show "\<exists>db'. delete_photo destroyed i db = Inr db'
           \<and> length db' = length (filter (\<lambda>p. p_id p \<noteq> i) db)
           \<and> (\<forall>k<length db'. db' ! k = (filter (\<lambda>p. p_id p \<noteq> i) db ! k)\<lparr>p_order := int k\<rparr>)
           \<and> i \<notin> p_id ` set db'
           \<and> map p_order db' = map int [0..<length db']
           \<and> dense_orders db'
           \<and> delete_photo destroyed' i db' = Inl (NotFound ''Photo introuvable'')"
      by (intro exI [of _ ?db'] conjI)
  qed
  from nf present same show ?thesis by blast
qed

theorem delete_photo_not_found_witness:
  "''b'' \<in> p_id ` set [photo_stub ''a'' 0, photo_stub ''b'' 1, photo_stub ''c'' 2]
   \<and> delete_photo Throws ''b'' [photo_stub ''a'' 0, photo_stub ''b'' 1, photo_stub ''c'' 2]
       = Inr [photo_stub ''a'' 0, photo_stub ''c'' 1]
   \<and> delete_photo Ok ''b'' [photo_stub ''a'' 0, photo_stub ''c'' 1]
       = Inl (NotFound ''Photo introuvable'')"
  using delete_photo_not_found
    [of Throws "''b''" "[photo_stub ''a'' 0, photo_stub ''b'' 1, photo_stub ''c'' 2]" Ok]
  by (simp add: photo_stub_def delete_photo_def swallow_def for_each_index_def)

text \<open>
  Claim C7. A partial update is answered with status 404 exactly when no photo of the
  collection has the id. Otherwise the first photo with that id gets the name and the
  order of the body, each only when the body has it, its other fields are unchanged,
  and every other photo of the collection is unchanged: no order value is renumbered.
\<close>

theorem update_photo_partial:
  "(update_photo i body db = Inl (NotFound ''Photo introuvable'')) = (i \<notin> p_id ` set db)
   \<and> (i \<in> p_id ` set db \<longrightarrow>
        (\<exists>db' k. update_photo i body db = Inr db'
           \<and> length db' = length db
           \<and> k < length db \<and> p_id (db ! k) = i \<and> (\<forall>j<k. p_id (db ! j) \<noteq> i)
           \<and> db' ! k = (db ! k)\<lparr>
                 p_name := (case u_name body of None \<Rightarrow> p_name (db ! k) | Some n \<Rightarrow> n),
                 p_order := (case u_order body of None \<Rightarrow> p_order (db ! k) | Some v \<Rightarrow> v)\<rparr>
           \<and> (\<forall>j<length db. j \<noteq> k \<longrightarrow> db' ! j = db ! j)))"
proof -
  have nf: "(update_photo i body db = Inl (NotFound ''Photo introuvable'')) = (i \<notin> p_id ` set db)"
    using find_None_ids [of i db]
    by (auto simp: update_photo_def split: option.splits)
  have present: "i \<in> p_id ` set db \<longrightarrow>
        (\<exists>db' k. update_photo i body db = Inr db'
           \<and> length db' = length db
           \<and> k < length db \<and> p_id (db ! k) = i \<and> (\<forall>j<k. p_id (db ! j) \<noteq> i)
           \<and> db' ! k = (db ! k)\<lparr>
                 p_name := (case u_name body of None \<Rightarrow> p_name (db ! k) | Some n \<Rightarrow> n),
                 p_order := (case u_order body of None \<Rightarrow> p_order (db ! k) | Some v \<Rightarrow> v)\<rparr>
           \<and> (\<forall>j<length db. j \<noteq> k \<longrightarrow> db' ! j = db ! j))"
  proof
    assume "i \<in> p_id ` set db"
    then obtain photo where f: "find (\<lambda>p. p_id p = i) db = Some photo"
      using find_None_ids [of i db] by (cases "find (\<lambda>p. p_id p = i) db") auto
    then obtain k where k: "k < length db" "p_id (db ! k) = i" "\<forall>j<k. p_id (db ! j) \<noteq> i"
      by (auto simp: find_Some_iff)
    let ?db' = "db[k := apply_update body (db ! k)]"
    have upd: "update_photo i body db = Inr ?db'"
      using f update_first_at [of k db "\<lambda>p. p_id p = i" "apply_update body"] k
      by (simp add: update_photo_def)
    have at: "?db' ! k = (db ! k)\<lparr>
                 p_name := (case u_name body of None \<Rightarrow> p_name (db ! k) | Some n \<Rightarrow> n),
                 p_order := (case u_order body of None \<Rightarrow> p_order (db ! k) | Some v \<Rightarrow> v)\<rparr>"
      using k(1) by (simp add: apply_update_def split: option.splits)
    have others: "\<forall>j<length db. j \<noteq> k \<longrightarrow> ?db' ! j = db ! j"
      by simp
    have len: "length ?db' = length db" by simp
    from upd len k at others
    show "\<exists>db' k. update_photo i body db = Inr db'
           \<and> length db' = length db
           \<and> k < length db \<and> p_id (db ! k) = i \<and> (\<forall>j<k. p_id (db ! j) \<noteq> i)
           \<and> db' ! k = (db ! k)\<lparr>
                 p_name := (case u_name body of None \<Rightarrow> p_name (db ! k) | Some n \<Rightarrow> n),
                 p_order := (case u_order body of None \<Rightarrow> p_order (db ! k) | Some v \<Rightarrow> v)\<rparr>
           \<and> (\<forall>j<length db. j \<noteq> k \<longrightarrow> db' ! j = db ! j)"
      by (intro exI [of _ ?db'] exI [of _ k] conjI)
  qed
  from nf present show ?thesis by blast
qed

theorem update_photo_partial_witness:
  "''b'' \<in> p_id ` set [photo_stub ''a'' 0, photo_stub ''b'' 1, photo_stub ''c'' 2]
   \<and> update_photo ''b'' \<lparr>u_name = None, u_order = Some 7\<rparr>
        [photo_stub ''a'' 0, photo_stub ''b'' 1, photo_stub ''c'' 2]
       = Inr [photo_stub ''a'' 0, photo_stub ''b'' 7, photo_stub ''c'' 2]
   \<and> update_photo ''zz'' \<lparr>u_name = None, u_order = Some 7\<rparr>
        [photo_stub ''a'' 0, photo_stub ''b'' 1, photo_stub ''c'' 2]
       = Inl (NotFound ''Photo introuvable'')"
  using update_photo_partial
    [of "''b''" "\<lparr>u_name = None, u_order = Some 7\<rparr>"
        "[photo_stub ''a'' 0, photo_stub ''b'' 1, photo_stub ''c'' 2]"]
  by (simp add: photo_stub_def update_photo_def apply_update_def)

section \<open>Register\<close>



lemma register_Inr:
  "register bn en ext body db = Inr (photo, db2) \<Longrightarrow>
   db2 = db @ [photo] \<and> p_order photo = int (length db) \<and> p_id photo = x_uuid ext"
  by (auto simp: register_def Let_def split: option.splits if_splits prod.splits)




section \<open>Dense order values\<close>

lemma sorted_int_upt: "sorted (map int [0..<n])"
  by (simp add: sorted_map sorted_wrt_iff_nth_less)

lemma dense_orders_mset:
  "dense_orders ps \<longleftrightarrow> mset (map p_order ps) = mset (map int [0..<length ps])"
proof
  assume "dense_orders ps"
  then have "mset (sort (map p_order ps)) = mset (map int [0..<length ps])"
    by (simp only: dense_orders_def)
  then show "mset (map p_order ps) = mset (map int [0..<length ps])"
    by simp
next
  assume "mset (map p_order ps) = mset (map int [0..<length ps])"
  then have "sort (map p_order ps) = map int [0..<length ps]"
    by (intro properties_for_sort sorted_int_upt) simp
  then show "dense_orders ps"
    by (simp only: dense_orders_def)
qed

lemma dense_orders_snoc:
  assumes "dense_orders ps" and "p_order p = int (length ps)"
  shows "dense_orders (ps @ [p])"
  using assms by (simp add: dense_orders_mset)

lemma register_keeps_dense:
  "dense_orders db \<Longrightarrow> register bn en ext body db = Inr (photo, db2) \<Longrightarrow> dense_orders db2"
  using register_Inr [of bn en ext body db photo db2] by (auto intro: dense_orders_snoc)

lemma register_calls_keep_dense:
  "dense_orders db \<Longrightarrow> dense_orders (register_calls bn en calls db)"
proof (induction calls arbitrary: db)
  case Nil
  then show ?case by simp
next
  case (Cons call calls)
  obtain ext body where call: "call = (ext, body)" by (cases call)
  show ?case
  proof (cases "register bn en ext body db")
    case (Inl e)
    with Cons call show ?thesis by simp
  next
    case (Inr r)
    obtain photo db2 where r: "r = (photo, db2)" by (cases r)
    from Cons.prems Inr r have "dense_orders db2"
      by (auto intro: register_keeps_dense)
    then have "dense_orders (register_calls bn en calls db2)"
      by (rule Cons.IH)
    with Inr r call show ?thesis by simp
  qed
qed

lemma last_pos_upt:
  assumes "distinct ids"
  shows "map (\<lambda>x. the (last_pos ids x)) ids = [0..<length ids]"
  by (rule nth_equalityI) (simp_all add: last_pos_distinct [OF assms])

lemma publish_ids_dense:
  assumes d: "distinct (map p_id db)" and di: "distinct ids" and sub: "set ids \<subseteq> p_id ` set db"
  shows "dense_orders (filter p_published (fst (publish (Some ids) db)))"
proof -
  let ?F = "\<lambda>p. case last_pos ids (p_id p) of
                 None \<Rightarrow> p\<lparr>p_published := False\<rparr>
               | Some k \<Rightarrow> p\<lparr>p_published := True, p_order := int k\<rparr>"
  let ?sel = "filter (\<lambda>p. p_id p \<in> set ids) db"
  have pubF: "p_published (?F p) \<longleftrightarrow> p_id p \<in> set ids" for p
    using last_pos_None [of ids "p_id p"] by (auto split: option.splits)
  have ordF: "p_id p \<in> set ids \<Longrightarrow> p_order (?F p) = int (the (last_pos ids (p_id p)))" for p
    using last_pos_None [of ids "p_id p"] by (auto split: option.splits)
  have pub: "filter p_published (fst (publish (Some ids) db)) = map ?F ?sel"
    by (simp only: publish_ids_map [OF d] filter_map comp_def pubF)
  have orders: "map p_order (map ?F ?sel) = map (\<lambda>x. int (the (last_pos ids x))) (map p_id ?sel)"
    by (simp add: ordF comp_def cong: map_cong)
  have ids_sel: "map p_id ?sel = filter (\<lambda>x. x \<in> set ids) (map p_id db)"
    by (simp add: filter_map comp_def)
  have "distinct (map p_id ?sel)"
    using d by (simp only: ids_sel distinct_filter)
  moreover have "set (map p_id ?sel) = set ids"
    using sub by (auto simp: ids_sel)
  ultimately have m: "mset (map p_id ?sel) = mset ids"
    using di by (simp only: set_eq_iff_mset_eq_distinct [symmetric])
  then have len: "length ?sel = length ids"
    by (metis length_map size_mset)
  have "mset (map p_order (map ?F ?sel)) = image_mset (\<lambda>x. int (the (last_pos ids x))) (mset (map p_id ?sel))"
    by (simp only: orders mset_map)
  also have "\<dots> = mset (map (\<lambda>x. int (the (last_pos ids x))) ids)"
    by (subst m) simp
  also have "map (\<lambda>x. int (the (last_pos ids x))) ids = map int (map (\<lambda>x. the (last_pos ids x)) ids)"
    by simp
  also have "\<dots> = map int [0..<length ids]"
    by (simp only: last_pos_upt [OF di])
  finally have "mset (map p_order (map ?F ?sel)) = mset (map int [0..<length (map ?F ?sel)])"
    by (simp add: len)
  then show ?thesis
    by (simp only: pub dense_orders_mset)
qed

lemma delete_dense:
  "delete_photo destroyed i db = Inr db2 \<Longrightarrow> dense_orders db2"
proof -
  assume a: "delete_photo destroyed i db = Inr db2"
  then have "db2 = for_each_index (\<lambda>k p. p\<lparr>p_order := int k\<rparr>) (filter (\<lambda>p. p_id p \<noteq> i) db)"
    by (auto simp: delete_photo_def swallow_def split: option.splits outcome.splits)
  moreover have "map p_order (for_each_index (\<lambda>k p. p\<lparr>p_order := int k\<rparr>) (filter (\<lambda>p. p_id p \<noteq> i) db))
     = map int [0..<length (filter (\<lambda>p. p_id p \<noteq> i) db)]"
    by (rule for_each_index_orders [of "\<lambda>p. p"])
  ultimately show ?thesis
    by (intro dense_orders_upt) (simp add: for_each_index_nth)
qed

lemma publish_none_dense:
  "dense_orders (fst (publish None db))"
  "filter p_published (fst (publish None db)) = fst (publish None db)"
proof -
  have "map p_order (fst (publish None db)) = map int [0..<length db]"
    using for_each_index_orders [of "\<lambda>p. p\<lparr>p_published := True\<rparr>" db]
    by (simp add: publish_none_fst)
  then show "dense_orders (fst (publish None db))"
    by (intro dense_orders_upt) (simp add: publish_none_fst for_each_index_nth)
  show "filter p_published (fst (publish None db)) = fst (publish None db)"
    by (simp add: publish_none_fst for_each_index_def split_def)
qed

text \<open>
  Claim C1, as amended. After a delete, and after a publish with no list, the order
  values of the whole collection are \<open>0, ..., n - 1\<close>. After a publish with a list of
  distinct ids that are all ids of the collection (whose ids are unique), the order
  values of the published photos are \<open>0, ..., k - 1\<close>. A register call keeps the order
  values of the collection dense when they were, and so does every sequence of
  register calls; from the empty collection they are always dense.
\<close>

theorem order_values_dense:
  "(delete_photo destroyed i db = Inr db1 \<longrightarrow> dense_orders db1)
   \<and> dense_orders (fst (publish None db))
   \<and> dense_orders (filter p_published (fst (publish None db)))
   \<and> (distinct (map p_id db) \<and> distinct ids \<and> set ids \<subseteq> p_id ` set db \<longrightarrow>
        dense_orders (filter p_published (fst (publish (Some ids) db))))
   \<and> (dense_orders db \<and> register bn en ext body db = Inr (photo, db2) \<longrightarrow> dense_orders db2)
   \<and> (dense_orders db \<longrightarrow> dense_orders (register_calls bn en calls db))
   \<and> dense_orders (register_calls bn en calls [])"
proof -
  have "dense_orders []"
    by (simp add: dense_orders_def)
  then have "dense_orders (register_calls bn en calls [])"
    by (rule register_calls_keep_dense)
  then show ?thesis
    using delete_dense [of destroyed i db db1] publish_none_dense [of db]
      publish_ids_dense [of db ids] register_keeps_dense [of db bn en ext body photo db2]
      register_calls_keep_dense [of db bn en calls]
    by simp
qed

theorem order_values_dense_witness:
  "delete_photo Ok ''b'' [photo_stub ''a'' 0, photo_stub ''b'' 1, photo_stub ''c'' 2]
     = Inr [photo_stub ''a'' 0, photo_stub ''c'' 1]
   \<and> dense_orders [photo_stub ''a'' 0, photo_stub ''c'' 1]
   \<and> distinct (map p_id [photo_stub ''a'' 0, photo_stub ''b'' 1, photo_stub ''c'' 2])
   \<and> distinct [''c'', ''a'']
   \<and> set [''c'', ''a''] \<subseteq> p_id ` set [photo_stub ''a'' 0, photo_stub ''b'' 1, photo_stub ''c'' 2]
   \<and> dense_orders (filter p_published
        (fst (publish (Some [''c'', ''a'']) [photo_stub ''a'' 0, photo_stub ''b'' 1, photo_stub ''c'' 2])))
   \<and> dense_orders [photo_stub ''a'' 0, photo_stub ''b'' 1, photo_stub ''c'' 2]
   \<and> dense_orders (register_calls stem_basename dot_extname
        [register_stub ''u1'', register_stub ''u2'']
        [photo_stub ''a'' 0, photo_stub ''b'' 1, photo_stub ''c'' 2])"
proof -
  have del: "delete_photo Ok ''b'' [photo_stub ''a'' 0, photo_stub ''b'' 1, photo_stub ''c'' 2]
     = Inr [photo_stub ''a'' 0, photo_stub ''c'' 1]"
    by (simp add: delete_photo_def swallow_def for_each_index_def photo_stub_def)
  have dense: "dense_orders [photo_stub ''a'' 0, photo_stub ''b'' 1, photo_stub ''c'' 2]"
    by (simp add: dense_orders_def photo_stub_def upt_rec)
  have hyps: "distinct (map p_id [photo_stub ''a'' 0, photo_stub ''b'' 1, photo_stub ''c'' 2])
     \<and> distinct [''c'', ''a'']
     \<and> set [''c'', ''a''] \<subseteq> p_id ` set [photo_stub ''a'' 0, photo_stub ''b'' 1, photo_stub ''c'' 2]"
    by (simp add: photo_stub_def)
  show ?thesis
    using order_values_dense
      [of Ok "''b''" "[photo_stub ''a'' 0, photo_stub ''b'' 1, photo_stub ''c'' 2]"
          "[photo_stub ''a'' 0, photo_stub ''c'' 1]" "[''c'', ''a'']"
          stem_basename dot_extname _ _ _ _ "[register_stub ''u1'', register_stub ''u2'']"]
      del dense hyps
    by simp
qed

text \<open>
  Claim C1 as the specification states it fails. After two register calls from the
  empty collection, a publish with a list whose first id is unknown leaves the one
  published photo with order 1; and a publish of the second photo alone gives it the
  order 0 that the first photo has, after which a third register call leaves the order
  values 0, 0, 2.
\<close>

theorem order_values_not_dense_counterexample:
  "map p_order (filter p_published (fst (publish (Some [''zz'', ''u1''])
       (register_calls stem_basename dot_extname [register_stub ''u1'', register_stub ''u2''] []))))
     = [1]
   \<and> \<not> dense_orders (filter p_published (fst (publish (Some [''zz'', ''u1''])
       (register_calls stem_basename dot_extname [register_stub ''u1'', register_stub ''u2''] []))))
   \<and> map p_order (register_calls stem_basename dot_extname [register_stub ''u3'']
       (fst (publish (Some [''u2''])
         (register_calls stem_basename dot_extname [register_stub ''u1'', register_stub ''u2''] []))))
     = [0, 0, 2]
   \<and> \<not> dense_orders (register_calls stem_basename dot_extname [register_stub ''u3'']
       (fst (publish (Some [''u2''])
         (register_calls stem_basename dot_extname [register_stub ''u1'', register_stub ''u2''] []))))"
  by (simp add: register_stub_def register_def final_dims_def parse_dim_def classify_def
      last_segment_def publish_def dense_orders_def Let_def upt_rec)

section \<open>Load and save\<close>

text \<open>
  Claim C2, as amended. \<^verbatim>\<open>readDB\<close> always returns a collection. When the local file
  has a content that parses, the parsed data is returned and nothing is written.
  Otherwise, when the fetch answers \<^verbatim>\<open>ok\<close> with a body that parses, that data is
  returned, and the local file holds its serialisation afterwards when the write of
  the file succeeds; when that write throws, the data is returned all the same and the
  store is unchanged. In every other case the empty collection is returned and the
  store is unchanged. The three cases are exhaustive.
\<close>

theorem readDB_never_fails:
  "(db_file st = Content s \<and> JSON_parse s = Some data \<longrightarrow>
      readDB JSON_parse JSON_stringify fetched cache_write st = (data, st))
   \<and> ((\<forall>s. db_file st = Content s \<longrightarrow> JSON_parse s = None)
        \<and> fetched = Response True body \<and> JSON_parse body = Some data \<longrightarrow>
      fst (readDB JSON_parse JSON_stringify fetched cache_write st) = data
      \<and> (cache_write = Ok \<longrightarrow>
           snd (readDB JSON_parse JSON_stringify fetched cache_write st)
             = st\<lparr>db_file := Content (JSON_stringify data)\<rparr>)
      \<and> (cache_write = Throws \<longrightarrow>
           snd (readDB JSON_parse JSON_stringify fetched cache_write st) = st))
   \<and> ((\<forall>s. db_file st = Content s \<longrightarrow> JSON_parse s = None)
        \<and> (fetched = FetchThrows \<or> (\<exists>b. fetched = Response False b)
             \<or> (\<exists>b. fetched = Response True b \<and> JSON_parse b = None)) \<longrightarrow>
      readDB JSON_parse JSON_stringify fetched cache_write st = ([], st))
   \<and> ((\<exists>s d. db_file st = Content s \<and> JSON_parse s = Some d)
        \<or> ((\<forall>s. db_file st = Content s \<longrightarrow> JSON_parse s = None)
            \<and> (\<exists>b d. fetched = Response True b \<and> JSON_parse b = Some d))
        \<or> ((\<forall>s. db_file st = Content s \<longrightarrow> JSON_parse s = None)
            \<and> (fetched = FetchThrows \<or> (\<exists>b. fetched = Response False b)
                 \<or> (\<exists>b. fetched = Response True b \<and> JSON_parse b = None))))"
proof -
  have local_ok: "db_file st = Content s \<and> JSON_parse s = Some data \<longrightarrow>
      readDB JSON_parse JSON_stringify fetched cache_write st = (data, st)"
    by (simp add: readDB_def)
  have no_local: "(case db_file st of Content s \<Rightarrow> JSON_parse s | Missing \<Rightarrow> None | Unreadable \<Rightarrow> None) = None"
    if "\<forall>s. db_file st = Content s \<longrightarrow> JSON_parse s = None"
    using that by (cases "db_file st") simp_all
  have remote_ok: "(\<forall>s. db_file st = Content s \<longrightarrow> JSON_parse s = None)
        \<and> fetched = Response True body \<and> JSON_parse body = Some data \<longrightarrow>
      fst (readDB JSON_parse JSON_stringify fetched cache_write st) = data
      \<and> (cache_write = Ok \<longrightarrow>
           snd (readDB JSON_parse JSON_stringify fetched cache_write st)
             = st\<lparr>db_file := Content (JSON_stringify data)\<rparr>)
      \<and> (cache_write = Throws \<longrightarrow>
           snd (readDB JSON_parse JSON_stringify fetched cache_write st) = st)"
    using no_local by (auto simp: readDB_def)
  have both_fail: "(\<forall>s. db_file st = Content s \<longrightarrow> JSON_parse s = None)
        \<and> (fetched = FetchThrows \<or> (\<exists>b. fetched = Response False b)
             \<or> (\<exists>b. fetched = Response True b \<and> JSON_parse b = None)) \<longrightarrow>
      readDB JSON_parse JSON_stringify fetched cache_write st = ([], st)"
    using no_local by (auto simp: readDB_def)
  have cases: "(\<exists>s d. db_file st = Content s \<and> JSON_parse s = Some d)
        \<or> ((\<forall>s. db_file st = Content s \<longrightarrow> JSON_parse s = None)
            \<and> (\<exists>b d. fetched = Response True b \<and> JSON_parse b = Some d))
        \<or> ((\<forall>s. db_file st = Content s \<longrightarrow> JSON_parse s = None)
            \<and> (fetched = FetchThrows \<or> (\<exists>b. fetched = Response False b)
                 \<or> (\<exists>b. fetched = Response True b \<and> JSON_parse b = None)))"
  proof (cases fetched)
    case FetchThrows
    then show ?thesis by auto
  next
    case (Response ok b)
    then show ?thesis by (cases ok; cases "JSON_parse b") auto
  qed
  from local_ok remote_ok both_fail cases show ?thesis by blast
qed

theorem readDB_never_fails_witness:
  "db_file (empty_store\<lparr>db_file := Content ''a;''\<rparr>) = Content ''a;''
   \<and> stub_parse ''a;'' = Some [photo_stub ''a'' 0]
   \<and> readDB stub_parse stub_stringify FetchThrows Ok (empty_store\<lparr>db_file := Content ''a;''\<rparr>)
       = ([photo_stub ''a'' 0], empty_store\<lparr>db_file := Content ''a;''\<rparr>)
   \<and> db_file empty_store = Missing
   \<and> readDB stub_parse stub_stringify (Response True ''a;'') Ok empty_store
       = ([photo_stub ''a'' 0], empty_store\<lparr>db_file := Content ''a;''\<rparr>)
   \<and> stub_parse ''{'' = None
   \<and> readDB stub_parse stub_stringify (Response True ''{'') Ok (empty_store\<lparr>db_file := Content ''{''\<rparr>)
       = ([], empty_store\<lparr>db_file := Content ''{''\<rparr>)"
  using readDB_never_fails
    [of "empty_store\<lparr>db_file := Content ''a;''\<rparr>" "''a;''" stub_parse "[photo_stub ''a'' 0]"
        stub_stringify FetchThrows Ok]
    readDB_never_fails
    [of empty_store _ stub_parse "[photo_stub ''a'' 0]" stub_stringify "Response True ''a;''" Ok "''a;''"]
    readDB_never_fails
    [of "empty_store\<lparr>db_file := Content ''{''\<rparr>" _ stub_parse _ stub_stringify
        "Response True ''{''" Ok]
  by (simp add: stub_parse_def stub_stringify_def empty_store_def photo_stub_def prod_eq_iff)

text \<open>
  Claim C2 as the specification states it fails when the local file cannot be
  written: the snapshot fetched is returned, and the local file is still missing.
\<close>

theorem readDB_cache_not_written_counterexample:
  "readDB stub_parse stub_stringify (Response True ''a;'') Throws empty_store
     = ([photo_stub ''a'' 0], empty_store)
   \<and> db_file empty_store = Missing
   \<and> db_file (snd (readDB stub_parse stub_stringify (Response True ''a;'') Throws empty_store))
       \<noteq> Content (stub_stringify [photo_stub ''a'' 0])"
  by (simp add: readDB_def stub_parse_def empty_store_def)

text \<open>
  Claim C8. Saving twice the data that \<^verbatim>\<open>readDB\<close> returned writes the same bytes both
  times: whenever a save writes the local file, the file holds the serialisation of
  the data, and the second save leaves the file the first one wrote as it is; the
  same holds for the copy in the cloud; and a second save with the same outcomes
  leaves the whole store as the first one left it. When the local file already holds
  the serialisation of the data and parses back to it, load returns the data and a
  save leaves the local file byte for byte as it was.
\<close>

theorem writeDB_twice_same_bytes:
  "(readDB JSON_parse JSON_stringify fetched cache_write st = (data, st0) \<longrightarrow>
      (local_write io1 = Ok \<longrightarrow>
         db_file (writeDB JSON_stringify io1 data st0) = Content (JSON_stringify data)
         \<and> db_file (writeDB JSON_stringify io2 data (writeDB JSON_stringify io1 data st0))
             = db_file (writeDB JSON_stringify io1 data st0))
      \<and> (local_write io2 = Ok \<longrightarrow>
         db_file (writeDB JSON_stringify io2 data (writeDB JSON_stringify io1 data st0))
             = Content (JSON_stringify data))
      \<and> (tmp_write io1 = Ok \<and> upload io1 = Ok \<longrightarrow>
         remote (writeDB JSON_stringify io1 data st0) = Some (JSON_stringify data)
         \<and> remote (writeDB JSON_stringify io2 data (writeDB JSON_stringify io1 data st0))
             = remote (writeDB JSON_stringify io1 data st0))
      \<and> (tmp_write io2 = Ok \<and> upload io2 = Ok \<longrightarrow>
         remote (writeDB JSON_stringify io2 data (writeDB JSON_stringify io1 data st0))
             = Some (JSON_stringify data))
      \<and> writeDB JSON_stringify io1 data (writeDB JSON_stringify io1 data st0)
           = writeDB JSON_stringify io1 data st0)
   \<and> (db_file st = Content (JSON_stringify data) \<and> JSON_parse (JSON_stringify data) = Some data \<longrightarrow>
        readDB JSON_parse JSON_stringify fetched cache_write st = (data, st)
        \<and> db_file (writeDB JSON_stringify io1 data st) = db_file st)"
proof -
  have db1: "local_write io1 = Ok \<longrightarrow>
         db_file (writeDB JSON_stringify io1 data st0) = Content (JSON_stringify data)"
    by (simp add: writeDB_def Let_def split: outcome.splits)
  have db2: "local_write io1 = Ok \<longrightarrow>
         db_file (writeDB JSON_stringify io2 data (writeDB JSON_stringify io1 data st0))
             = db_file (writeDB JSON_stringify io1 data st0)"
    by (simp add: writeDB_def Let_def split: outcome.splits)
  have db3: "local_write io2 = Ok \<longrightarrow>
         db_file (writeDB JSON_stringify io2 data (writeDB JSON_stringify io1 data st0))
             = Content (JSON_stringify data)"
    by (simp add: writeDB_def Let_def split: outcome.splits)
  have r1: "tmp_write io1 = Ok \<and> upload io1 = Ok \<longrightarrow>
         remote (writeDB JSON_stringify io1 data st0) = Some (JSON_stringify data)"
    by (simp add: writeDB_def Let_def split: outcome.splits)
  have r2: "tmp_write io1 = Ok \<and> upload io1 = Ok \<longrightarrow>
         remote (writeDB JSON_stringify io2 data (writeDB JSON_stringify io1 data st0))
             = remote (writeDB JSON_stringify io1 data st0)"
    by (simp add: writeDB_def Let_def split: outcome.splits)
  have r3: "tmp_write io2 = Ok \<and> upload io2 = Ok \<longrightarrow>
         remote (writeDB JSON_stringify io2 data (writeDB JSON_stringify io1 data st0))
             = Some (JSON_stringify data)"
    by (simp add: writeDB_def Let_def split: outcome.splits)
  have idem: "writeDB JSON_stringify io1 data (writeDB JSON_stringify io1 data st0)
           = writeDB JSON_stringify io1 data st0"
    by (simp add: writeDB_def Let_def split: outcome.splits)
  have round: "db_file st = Content (JSON_stringify data) \<and> JSON_parse (JSON_stringify data) = Some data \<longrightarrow>
        readDB JSON_parse JSON_stringify fetched cache_write st = (data, st)
        \<and> db_file (writeDB JSON_stringify io1 data st) = db_file st"
    by (simp add: readDB_def writeDB_def Let_def split: outcome.splits)
  from db1 db2 db3 r1 r2 r3 idem round show ?thesis by blast
qed

theorem writeDB_twice_same_bytes_witness:
  "readDB stub_parse stub_stringify FetchThrows Ok (empty_store\<lparr>db_file := Content ''a;''\<rparr>)
     = ([photo_stub ''a'' 0], empty_store\<lparr>db_file := Content ''a;''\<rparr>)
   \<and> local_write \<lparr>local_write = Ok, tmp_write = Ok, upload = Ok, unlink = Ok\<rparr> = Ok
   \<and> tmp_write \<lparr>local_write = Ok, tmp_write = Ok, upload = Ok, unlink = Ok\<rparr> = Ok
   \<and> upload \<lparr>local_write = Ok, tmp_write = Ok, upload = Ok, unlink = Ok\<rparr> = Ok
   \<and> db_file (empty_store\<lparr>db_file := Content ''a;''\<rparr>) = Content (stub_stringify [photo_stub ''a'' 0])
   \<and> stub_parse (stub_stringify [photo_stub ''a'' 0]) = Some [photo_stub ''a'' 0]
   \<and> writeDB stub_stringify \<lparr>local_write = Ok, tmp_write = Ok, upload = Ok, unlink = Ok\<rparr>
        [photo_stub ''a'' 0] (empty_store\<lparr>db_file := Content ''a;''\<rparr>)
       = \<lparr> db_file = Content ''a;'', tmp_file = Missing, remote = Some ''a;'' \<rparr>
   \<and> writeDB stub_stringify \<lparr>local_write = Ok, tmp_write = Ok, upload = Ok, unlink = Ok\<rparr>
        [photo_stub ''a'' 0]
        (writeDB stub_stringify \<lparr>local_write = Ok, tmp_write = Ok, upload = Ok, unlink = Ok\<rparr>
           [photo_stub ''a'' 0] (empty_store\<lparr>db_file := Content ''a;''\<rparr>))
       = \<lparr> db_file = Content ''a;'', tmp_file = Missing, remote = Some ''a;'' \<rparr>"
  using writeDB_twice_same_bytes
    [of stub_parse stub_stringify FetchThrows Ok "empty_store\<lparr>db_file := Content ''a;''\<rparr>"
        "[photo_stub ''a'' 0]" "empty_store\<lparr>db_file := Content ''a;''\<rparr>"
        "\<lparr>local_write = Ok, tmp_write = Ok, upload = Ok, unlink = Ok\<rparr>"
        "\<lparr>local_write = Ok, tmp_write = Ok, upload = Ok, unlink = Ok\<rparr>"]
  by (simp add: readDB_def writeDB_def stub_parse_def stub_stringify_def photo_stub_def
      empty_store_def Let_def)

end
